theory Spec2Isabelle
  imports Main "HOL-Library.Word"
begin

section \<open>Annotation.cpp: annotations of an interface-definition file\<close>

text \<open>
  The embedding follows \<^verbatim>\<open>src/Annotation.cpp\<close>. A \<^verbatim>\<open>std::string\<close> is a
  \<open>string\<close> (a list of bytes), a \<^verbatim>\<open>std::vector\<close> is a list, a failed \<^verbatim>\<open>CHECK\<close>
  is the left injection of a sum type. Objects that the file only reaches through pointers
  and whose classes are declared elsewhere (\<^verbatim>\<open>ConstantExpression\<close>, \<^verbatim>\<open>Formatter\<close>,
  \<^verbatim>\<open>StringHelper\<close>) are described where they are used.
\<close>

subsection \<open>Status codes and fatal checks\<close>

type_synonym status_t = "32 word"

text \<open>
  Modelled from the spec: the constant \<^verbatim>\<open>OK\<close> of \<^verbatim>\<open>status_t\<close> is declared outside
  \<^verbatim>\<open>src/\<close>; it is the success status, the value zero.
\<close>

definition OK :: status_t where
  "OK = 0"

text \<open>
  A \<^verbatim>\<open>CHECK\<close> or \<^verbatim>\<open>CHECK_EQ\<close> that fails ends the program. The two kinds of failed
  check in the file are told apart by the names the specification gives them:
  \<open>WrongArity\<close> for the check on the number of values, \<open>TypeMismatch\<close> for the checks on
  the shape of a value.
\<close>

datatype error = WrongArity | TypeMismatch

subsection \<open>Constant expressions\<close>

text \<open>
  Modelled from the spec: class \<^verbatim>\<open>ConstantExpression\<close> is declared outside \<^verbatim>\<open>src/\<close>.
  A node exposes \<^verbatim>\<open>value()\<close>, its folded textual representation, and \<^verbatim>\<open>description()\<close>,
  a human-readable comment; the record holds what these two accessors return for a node
  in its current state. Parameters hold pointers to nodes, which may be shared, so nodes
  live in a store that maps an address to the node found there.
\<close>

type_synonym addr = nat

record ConstantExpression =
  ce_value :: string
  ce_description :: string

type_synonym store = "addr \<Rightarrow> ConstantExpression"

subsection \<open>AnnotationParam and its two subclasses\<close>

text \<open>
  The base class holds \<^verbatim>\<open>mName\<close>; each subclass adds \<^verbatim>\<open>mValues\<close>, a vector of strings
  or a vector of pointers to constant expressions. The selector \<open>getName\<close> is the accessor
  of the same name.
\<close>

datatype AnnotationParam =
    StringAnnotationParam (getName: string) "string list"
  | ConstantExpressionAnnotationParam (getName: string) "addr list"

definition convertToString :: "ConstantExpression \<Rightarrow> string" where
  "convertToString v = ce_value v @ '' /* '' @ ce_description v @ '' */''"

text \<open>
  The loop of \<^verbatim>\<open>ConstantExpressionAnnotationParam::getValues\<close>: \<open>ret\<close> is the vector
  built so far, each step is one \<^verbatim>\<open>push_back\<close>.
\<close>

fun getValues_loop :: "store \<Rightarrow> addr list \<Rightarrow> string list \<Rightarrow> string list" where
  "getValues_loop h [] ret = ret"
| "getValues_loop h (v # vs) ret = getValues_loop h vs (ret @ [convertToString (h v)])"

fun getValues :: "store \<Rightarrow> AnnotationParam \<Rightarrow> string list" where
  "getValues h (StringAnnotationParam n vs) = vs"
| "getValues h (ConstantExpressionAnnotationParam n vs) = getValues_loop h vs []"

text \<open>
  \<^verbatim>\<open>CHECK_EQ(mValues->size(), 1u)\<close> comes first; \<^verbatim>\<open>at(0)\<close> is reached only with one
  element.
\<close>

fun getSingleValue :: "store \<Rightarrow> AnnotationParam \<Rightarrow> error + string" where
  "getSingleValue h (StringAnnotationParam n vs) =
     (if length vs = 1 then Inr (vs ! 0) else Inl WrongArity)"
| "getSingleValue h (ConstantExpressionAnnotationParam n vs) =
     (if length vs = 1 then Inr (convertToString (h (vs ! 0))) else Inl WrongArity)"

text \<open>
  \<^verbatim>\<open>value.substr(1, value.size() - 2)\<close>: the characters from position 1 on, at most
  \<^verbatim>\<open>size - 2\<close> of them. The subtraction is reached only when the size is at least 2.
\<close>

definition substr :: "string \<Rightarrow> nat \<Rightarrow> nat \<Rightarrow> string" where
  "substr s pos n = take n (drop pos s)"

definition getSingleString :: "store \<Rightarrow> AnnotationParam \<Rightarrow> error + string" where
  "getSingleString h p =
     (case getSingleValue h p of
        Inl e \<Rightarrow> Inl e
      | Inr v \<Rightarrow>
          if length v \<ge> 2 \<and> v ! 0 = CHR 0x22 \<and> v ! (length v - 1) = CHR 0x22
          then Inr (substr v 1 (length v - 2))
          else Inl TypeMismatch)"

definition getSingleBool :: "store \<Rightarrow> AnnotationParam \<Rightarrow> error + bool" where
  "getSingleBool h p =
     (case getSingleString h p of
        Inl e \<Rightarrow> Inl e
      | Inr v \<Rightarrow>
          if v = ''true'' then Inr True
          else if v = ''false'' then Inr False
          else Inl TypeMismatch)"

subsection \<open>Evaluation of a parameter\<close>

text \<open>
  \<^verbatim>\<open>evaluate\<close> is the one operation of a parameter that changes anything: it calls
  \<^verbatim>\<open>evaluate()\<close> on constant-expression nodes. That method is declared outside
  \<^verbatim>\<open>src/\<close> and is a parameter \<open>ev\<close> here. A node that does not fold fails fatally, as
  a failed \<^verbatim>\<open>CHECK\<close> does: from the address of a node and the program state \<open>'s\<close>,
  \<open>ev\<close> gives either the failure \<open>'e\<close> that ends the program (on the left) or the state
  after the call (on the right). The call is a statement of its own, so nothing that it
  may return is used. \<^verbatim>\<open>AnnotationParam::evaluate\<close>, the method of the base class,
  returns \<^verbatim>\<open>OK\<close>.
\<close>

definition AnnotationParam_evaluate :: "'s \<Rightarrow> status_t \<times> 's" where
  "AnnotationParam_evaluate s = (OK, s)"

text \<open>
  The loop of \<^verbatim>\<open>ConstantExpressionAnnotationParam::evaluate\<close>: one call of
  \<^verbatim>\<open>value->evaluate()\<close> for each node; a call that fails ends the loop and the program
  with it. The method of the base class is reached when the loop is over.
\<close>

fun evaluate_values :: "(addr \<Rightarrow> 's \<Rightarrow> 'e + 's) \<Rightarrow> addr list \<Rightarrow> 's \<Rightarrow> 'e + 's" where
  "evaluate_values ev [] s = Inr s"
| "evaluate_values ev (v # vs) s =
     (case ev v s of Inl e \<Rightarrow> Inl e | Inr s' \<Rightarrow> evaluate_values ev vs s')"

definition ConstantExpressionAnnotationParam_evaluate ::
    "(addr \<Rightarrow> 's \<Rightarrow> 'e + 's) \<Rightarrow> addr list \<Rightarrow> 's \<Rightarrow> 'e + status_t \<times> 's" where
  "ConstantExpressionAnnotationParam_evaluate ev vs s =
     (case evaluate_values ev vs s of
        Inl e \<Rightarrow> Inl e
      | Inr s' \<Rightarrow> Inr (AnnotationParam_evaluate s'))"

text \<open>
  The virtual call \<^verbatim>\<open>param->evaluate()\<close> on the two classes of the file: the string
  class inherits the method of the base class.
\<close>

fun param_evaluate ::
    "(addr \<Rightarrow> 's \<Rightarrow> 'e + 's) \<Rightarrow> AnnotationParam \<Rightarrow> 's \<Rightarrow> 'e + status_t \<times> 's" where
  "param_evaluate ev (StringAnnotationParam n vs) s = Inr (AnnotationParam_evaluate s)"
| "param_evaluate ev (ConstantExpressionAnnotationParam n vs) s =
     ConstantExpressionAnnotationParam_evaluate ev vs s"

subsection \<open>Annotation\<close>

record Annotation =
  mName :: string
  mParams :: "AnnotationParam list"

text \<open>
  The constructor copies the C string it is given into \<^verbatim>\<open>mName\<close> and keeps the
  parameter vector; it checks nothing.
\<close>

definition Annotation_new :: "string \<Rightarrow> AnnotationParam list \<Rightarrow> Annotation" where
  "Annotation_new n ps = \<lparr>mName = n, mParams = ps\<rparr>"

definition name :: "Annotation \<Rightarrow> string" where
  "name a = mName a"

definition params :: "Annotation \<Rightarrow> AnnotationParam list" where
  "params a = mParams a"

text \<open>
  \<^verbatim>\<open>getParam\<close> returns a pointer to a parameter or \<^verbatim>\<open>nullptr\<close>: an option here.
\<close>

fun getParam_loop :: "AnnotationParam list \<Rightarrow> string \<Rightarrow> AnnotationParam option" where
  "getParam_loop [] n = None"
| "getParam_loop (i # rest) n = (if getName i = n then Some i else getParam_loop rest n)"

definition getParam :: "Annotation \<Rightarrow> string \<Rightarrow> AnnotationParam option" where
  "getParam a n = getParam_loop (mParams a) n"

text \<open>
  \<^verbatim>\<open>Annotation::evaluate\<close> calls the virtual method \<^verbatim>\<open>evaluate\<close> of each parameter and
  looks at the status it returns. The method is the parameter \<open>pev\<close>: the status that a
  call returns and the state after the call.
\<close>

fun Annotation_evaluate_loop ::
    "('p \<Rightarrow> 's \<Rightarrow> status_t \<times> 's) \<Rightarrow> 'p list \<Rightarrow> 's \<Rightarrow> status_t \<times> 's" where
  "Annotation_evaluate_loop pev [] s = (OK, s)"
| "Annotation_evaluate_loop pev (param # rest) s =
     (case pev param s of
        (err, s') \<Rightarrow> if err \<noteq> OK then (err, s') else Annotation_evaluate_loop pev rest s')"

definition Annotation_evaluate ::
    "(AnnotationParam \<Rightarrow> 's \<Rightarrow> status_t \<times> 's) \<Rightarrow> Annotation \<Rightarrow> 's \<Rightarrow> status_t \<times> 's" where
  "Annotation_evaluate pev a s = Annotation_evaluate_loop pev (mParams a) s"

subsection \<open>Rendering\<close>

text \<open>
  Modelled from the spec: class \<^verbatim>\<open>Formatter\<close> is declared outside \<^verbatim>\<open>src/\<close>. It is the
  sink that consumes the rendered text; the model of a sink is the text written to it so
  far, and \<^verbatim>\<open>out << s\<close> adds \<open>s\<close> at its end.
\<close>

type_synonym Formatter = string

definition emit :: "Formatter \<Rightarrow> string \<Rightarrow> Formatter" where
  "emit out s = out @ s"

text \<open>
  Modelled from the spec: \<^verbatim>\<open>StringHelper::JoinStrings\<close> is defined outside \<^verbatim>\<open>src/\<close>.
  The values of a parameter are rendered as \<^verbatim>\<open>v1, v2, ...\<close>: the components in order,
  the separator between each two of them, and nothing for no component.
\<close>

fun JoinStrings :: "string list \<Rightarrow> string \<Rightarrow> string" where
  "JoinStrings [] sep = []"
| "JoinStrings [c] sep = c"
| "JoinStrings (c # cs) sep = c @ sep @ JoinStrings cs sep"

text \<open>
  The body of the loop of \<^verbatim>\<open>Annotation::dump\<close> for index \<open>i\<close> and the loop itself,
  which runs \<open>i\<close> up to the size of the vector.
\<close>

definition dump_param :: "store \<Rightarrow> nat \<Rightarrow> AnnotationParam \<Rightarrow> Formatter \<Rightarrow> Formatter" where
  "dump_param h i param out =
     (let out1 = (if i > 0 then emit out '', '' else out);
          out2 = emit (emit out1 (getName param)) ''='';
          values = getValues h param;
          out3 = (if length values > 1 then emit out2 ''{'' else out2);
          out4 = emit out3 (JoinStrings values '', '');
          out5 = (if length values > 1 then emit out4 ''}'' else out4)
      in out5)"

function dump_loop :: "store \<Rightarrow> AnnotationParam list \<Rightarrow> nat \<Rightarrow> Formatter \<Rightarrow> Formatter" where
  "dump_loop h ps i out =
     (if i < length ps then dump_loop h ps (i + 1) (dump_param h i (ps ! i) out) else out)"
  by pat_completeness auto
termination
  by (relation "measure (\<lambda>(h, ps, i, out). length ps - i)") auto

declare dump_loop.simps [simp del]

definition dump :: "store \<Rightarrow> Annotation \<Rightarrow> Formatter \<Rightarrow> Formatter" where
  "dump h a out =
     (let out1 = emit (emit out ''@'') (mName a)
      in if length (mParams a) = 0 then out1
         else emit (dump_loop h (mParams a) 0 (emit out1 ''('')) '')'')"

subsection \<open>Concrete inputs\<close>

text \<open>
  A store with the node \<open>1 /* ONE */\<close> at address 0 and the node \<open>2 /* 1 + 1 */\<close> at
  every other address, and the annotation \<^verbatim>\<open>@token(repr="abc")\<close> of the specification.
\<close>

definition example_store :: store where
  "example_store a =
     (if a = 0 then \<lparr>ce_value = ''1'', ce_description = ''ONE''\<rparr>
      else \<lparr>ce_value = ''2'', ce_description = ''1 + 1''\<rparr>)"

definition token_annotation :: Annotation where
  \<open>token_annotation = Annotation_new ''token'' [StringAnnotationParam ''repr'' [''"abc"'']]\<close>

text \<open>
  \<open>logging_node\<close> is an \<^verbatim>\<open>evaluate\<close> of a node that adds the address of the node to a
  log of the calls made so far; the nodes at the addresses 0 and 1 do not fold, and the
  failure names the node. \<open>logging_evaluate\<close> is an \<^verbatim>\<open>evaluate\<close> of a parameter that
  adds the parameter's name to such a log and fails for the parameters named \<open>bad\<close>.
\<close>

datatype fold_failure = EvaluationFailure addr

definition logging_node :: "addr \<Rightarrow> addr list \<Rightarrow> fold_failure + addr list" where
  "logging_node v log = (if v < 2 then Inl (EvaluationFailure v) else Inr (log @ [v]))"

definition logging_evaluate ::
    "AnnotationParam \<Rightarrow> string list \<Rightarrow> status_t \<times> string list" where
  "logging_evaluate p log = (if getName p = ''bad'' then - 1 else OK, log @ [getName p])"

subsection \<open>The specification's description of the operations\<close>

text \<open>
  The rendering of the specification: \<^verbatim>\<open>key=value\<close> for exactly one value,
  \<^verbatim>\<open>key={v1, v2, ...}\<close> for more than one, and for no value the key and the equals sign
  alone; \<^verbatim>\<open>@Name\<close> without parameters, otherwise \<^verbatim>\<open>@Name(\<close>, the parameters in
  order with \<^verbatim>\<open>, \<close> between them, and \<^verbatim>\<open>)\<close>.
\<close>

fun spec_render_values :: "string list \<Rightarrow> string" where
  "spec_render_values [] = []"
| "spec_render_values [v] = v"
| "spec_render_values vs = ''{'' @ JoinStrings vs '', '' @ ''}''"

definition spec_render_param :: "store \<Rightarrow> AnnotationParam \<Rightarrow> string" where
  "spec_render_param h p = getName p @ ''='' @ spec_render_values (getValues h p)"

definition spec_dump :: "store \<Rightarrow> Annotation \<Rightarrow> string" where
  "spec_dump h a =
     (if mParams a = [] then ''@'' @ name a
      else ''@'' @ name a @ ''('' @
           JoinStrings (map (spec_render_param h) (mParams a)) '', '' @ '')'')"

text \<open>
  The state in which the parameters \<open>ps\<close> leave the program when \<^verbatim>\<open>evaluate\<close> is called
  on each of them in order, starting in \<open>s\<close>.
\<close>

definition run_params :: "('p \<Rightarrow> 's \<Rightarrow> status_t \<times> 's) \<Rightarrow> 'p list \<Rightarrow> 's \<Rightarrow> 's" where
  "run_params pev ps s = foldl (\<lambda>s p. snd (pev p s)) s ps"

text \<open>
  The state in which the nodes \<open>vs\<close> leave the program when \<^verbatim>\<open>evaluate\<close> is called on
  each of them in order, starting in \<open>s\<close>, as long as the calls succeed.
\<close>

definition run_values :: "(addr \<Rightarrow> 's \<Rightarrow> 'e + 's) \<Rightarrow> addr list \<Rightarrow> 's \<Rightarrow> 's" where
  "run_values ev vs s = foldl (\<lambda>s v. case ev v s of Inl e \<Rightarrow> s | Inr s' \<Rightarrow> s') s vs"

section \<open>Properties\<close>

subsection \<open>The values of a parameter\<close>

lemma getValues_loop_map:
  "getValues_loop h vs ret = ret @ map (\<lambda>v. convertToString (h v)) vs"
  by (induction vs arbitrary: ret) auto

text \<open>
  Claim C8. \<open>getValues\<close> of the string class returns the stored strings as they are and in
  their order; \<open>getValues\<close> of the constant-expression class returns, for each node in
  order, the node's value, then \<open> /* \<close>, then the node's description, then \<open> */\<close>.
\<close>

theorem getValues_variants:
  "getValues h (StringAnnotationParam n vs) = vs \<and>
   getValues h (ConstantExpressionAnnotationParam n as) =
     map (\<lambda>a. ce_value (h a) @ '' /* '' @ ce_description (h a) @ '' */'') as"
  by (simp add: getValues_loop_map convertToString_def)

theorem getValues_variants_witness:
  \<open>getValues example_store (StringAnnotationParam ''n'' [''"abc"'', ''x'']) = [''"abc"'', ''x''] \<and>
   getValues example_store (ConstantExpressionAnnotationParam ''n'' [0, 7]) =
     [''1 /* ONE */'', ''2 /* 1 + 1 */'']\<close>
  using getValues_variants [of example_store "''n''" \<open>[''"abc"'', ''x'']\<close> "[0, 7]"]
  by (simp add: example_store_def)

lemma getSingleValue_getValues:
  "getSingleValue h p =
     (if length (getValues h p) = 1 then Inr (getValues h p ! 0) else Inl WrongArity)"
proof (cases p)
  case (StringAnnotationParam n vs)
  then show ?thesis by simp
next
  case (ConstantExpressionAnnotationParam n vs)
  then show ?thesis by (simp add: getValues_loop_map)
qed

text \<open>
  Claim C6. For a parameter of either class, \<open>getSingleValue\<close> fails with \<open>WrongArity\<close>
  if and only if the number of stored values is not 1. With exactly one stored value it
  returns that value: the stored string for the string class, the text
  \<open>value /* description */\<close> of the node for the constant-expression class.
\<close>

theorem getSingleValue_arity:
  "(getSingleValue h p = Inl WrongArity \<longleftrightarrow> length (getValues h p) \<noteq> 1) \<and>
   (isl (getSingleValue h p) \<longleftrightarrow> length (getValues h p) \<noteq> 1) \<and>
   (length (getValues h p) = 1 \<longrightarrow> getSingleValue h p = Inr (getValues h p ! 0)) \<and>
   (getSingleValue h (StringAnnotationParam n vs) = Inl WrongArity \<longleftrightarrow> length vs \<noteq> 1) \<and>
   (getSingleValue h (ConstantExpressionAnnotationParam n as) = Inl WrongArity
      \<longleftrightarrow> length as \<noteq> 1) \<and>
   getSingleValue h (StringAnnotationParam n [v]) = Inr v \<and>
   getSingleValue h (ConstantExpressionAnnotationParam n [a]) =
     Inr (ce_value (h a) @ '' /* '' @ ce_description (h a) @ '' */'')"
proof -
  have 1: "getSingleValue h p = Inl WrongArity \<longleftrightarrow> length (getValues h p) \<noteq> 1"
    by (simp add: getSingleValue_getValues)
  have 2: "isl (getSingleValue h p) \<longleftrightarrow> length (getValues h p) \<noteq> 1"
    by (simp add: getSingleValue_getValues)
  have 3: "length (getValues h p) = 1 \<longrightarrow> getSingleValue h p = Inr (getValues h p ! 0)"
    by (simp add: getSingleValue_getValues)
  have 4: "getSingleValue h (StringAnnotationParam n vs) = Inl WrongArity \<longleftrightarrow> length vs \<noteq> 1"
    by simp
  have 5: "getSingleValue h (ConstantExpressionAnnotationParam n as) = Inl WrongArity
             \<longleftrightarrow> length as \<noteq> 1"
    by simp
  have 6: "getSingleValue h (StringAnnotationParam n [v]) = Inr v"
    by simp
  have 7: "getSingleValue h (ConstantExpressionAnnotationParam n [a]) =
             Inr (ce_value (h a) @ '' /* '' @ ce_description (h a) @ '' */'')"
    by (simp add: convertToString_def)
  from 1 2 3 4 5 6 7 show ?thesis by blast
qed

theorem getSingleValue_arity_witness:
  "length (getValues example_store (ConstantExpressionAnnotationParam ''n'' [0])) = 1 \<and>
   getSingleValue example_store (ConstantExpressionAnnotationParam ''n'' [0]) =
     Inr ''1 /* ONE */'' \<and>
   getSingleValue example_store (StringAnnotationParam ''k'' [''a'', ''b'']) = Inl WrongArity \<and>
   getSingleValue example_store (StringAnnotationParam ''k'' []) = Inl WrongArity"
  using getSingleValue_arity
          [of example_store "ConstantExpressionAnnotationParam ''n'' [0]" "''k''" "[]" "[]"]
  by (simp add: example_store_def convertToString_def)

subsection \<open>Quoted strings and booleans\<close>

lemma quoted_iff:
  "(length v \<ge> 2 \<and> v ! 0 = q \<and> v ! (length v - 1) = q) \<longleftrightarrow> (\<exists>s. v = q # s @ [q])"
proof
  assume a: "length v \<ge> 2 \<and> v ! 0 = q \<and> v ! (length v - 1) = q"
  then obtain x xs where v: "v = x # xs" by (cases v) auto
  with a have "xs \<noteq> []" by auto
  then obtain s y where xs: "xs = s @ [y]" by (metis rev_exhaust)
  from a v xs have "x = q" "y = q" by (simp_all add: nth_append)
  with v xs show "\<exists>s. v = q # s @ [q]" by blast
next
  assume "\<exists>s. v = q # s @ [q]"
  then obtain s where "v = q # s @ [q]" by blast
  then show "length v \<ge> 2 \<and> v ! 0 = q \<and> v ! (length v - 1) = q"
    by (simp add: nth_append)
qed

lemma quoted_hd_last:
  "(length v \<ge> 2 \<and> hd v = q \<and> last v = q) \<longleftrightarrow>
   (length v \<ge> 2 \<and> v ! 0 = q \<and> v ! (length v - 1) = q)"
proof (cases "v = []")
  case True
  then show ?thesis by simp
next
  case False
  then show ?thesis by (simp add: hd_conv_nth last_conv_nth)
qed

lemma getSingleString_quoted:
  assumes "getSingleValue h p = Inr (CHR 0x22 # s @ [CHR 0x22])"
  shows "getSingleString h p = Inr s"
  using assms by (simp add: getSingleString_def substr_def nth_append)

lemma getSingleString_unquoted:
  assumes "getSingleValue h p = Inr v"
    and "\<not> (length v \<ge> 2 \<and> v ! 0 = CHR 0x22 \<and> v ! (length v - 1) = CHR 0x22)"
  shows "getSingleString h p = Inl TypeMismatch"
  using assms by (simp add: getSingleString_def)

text \<open>
  Claim C4. When \<open>getSingleValue\<close> yields \<open>v\<close>, \<open>getSingleString\<close> fails with
  \<open>TypeMismatch\<close> unless \<open>v\<close> has length at least 2 and its first and its last character
  are the double quote; when it succeeds, it returns \<open>v\<close> without exactly its first and
  its last character. So \<open>"abc"\<close> with its quotes yields \<open>abc\<close>, and \<open>abc\<close> without
  quotes fails.
\<close>

theorem getSingleString_unquote:
  assumes "getSingleValue h p = Inr v"
  shows "(getSingleString h p = Inl TypeMismatch \<longleftrightarrow>
            \<not> (length v \<ge> 2 \<and> hd v = CHR 0x22 \<and> last v = CHR 0x22)) \<and>
         (length v \<ge> 2 \<and> hd v = CHR 0x22 \<and> last v = CHR 0x22 \<longrightarrow>
            getSingleString h p = Inr (butlast (tl v))) \<and>
         (\<forall>s. getSingleString h p = Inr s \<longleftrightarrow> v = CHR 0x22 # s @ [CHR 0x22])"
proof (cases "length v \<ge> 2 \<and> v ! 0 = CHR 0x22 \<and> v ! (length v - 1) = CHR 0x22")
  case True
  then obtain s where v: "v = CHR 0x22 # s @ [CHR 0x22]"
    using quoted_iff [of v] by blast
  have g: "getSingleString h p = Inr s"
    using assms v getSingleString_quoted by blast
  have b: "butlast (tl v) = s"
    using v by simp
  have q: "length v \<ge> 2 \<and> hd v = CHR 0x22 \<and> last v = CHR 0x22"
    using v by simp
  have u: "\<And>t. v = CHR 0x22 # t @ [CHR 0x22] \<longleftrightarrow> s = t"
    using v by auto
  from g b q u show ?thesis by simp
next
  case False
  then have n: "\<And>s. v \<noteq> CHR 0x22 # s @ [CHR 0x22]"
    using quoted_iff [of v] by blast
  have g: "getSingleString h p = Inl TypeMismatch"
    using assms False by (rule getSingleString_unquoted)
  have q: "\<not> (length v \<ge> 2 \<and> hd v = CHR 0x22 \<and> last v = CHR 0x22)"
    using False quoted_hd_last [of v] by blast
  from g n q show ?thesis by simp
qed

theorem getSingleString_unquote_witness:
  \<open>getSingleValue example_store (StringAnnotationParam ''repr'' [''"abc"'']) = Inr ''"abc"'' \<and>
   getSingleString example_store (StringAnnotationParam ''repr'' [''"abc"'']) = Inr ''abc'' \<and>
   getSingleValue example_store (StringAnnotationParam ''repr'' [''abc'']) = Inr ''abc'' \<and>
   getSingleString example_store (StringAnnotationParam ''repr'' [''abc'']) = Inl TypeMismatch\<close>
proof -
  have q: \<open>getSingleValue example_store (StringAnnotationParam ''repr'' [''"abc"''])
             = Inr ''"abc"''\<close>
    by simp
  have u: "getSingleValue example_store (StringAnnotationParam ''repr'' [''abc'']) = Inr ''abc''"
    by simp
  show ?thesis
    using q u getSingleString_unquote [OF q] getSingleString_unquote [OF u] by simp
qed

text \<open>
  Claim C5. \<open>getSingleBool\<close> first obtains the unquoted string from \<open>getSingleString\<close>
  (a failure there is the failure of \<open>getSingleBool\<close>); it returns true when that string
  is exactly \<open>true\<close>, false when it is exactly \<open>false\<close>, and fails with \<open>TypeMismatch\<close>
  for every other string.
\<close>

theorem getSingleBool_cases:
  "(getSingleString h p = Inr ''true'' \<longrightarrow> getSingleBool h p = Inr True) \<and>
   (getSingleString h p = Inr ''false'' \<longrightarrow> getSingleBool h p = Inr False) \<and>
   (\<forall>s. getSingleString h p = Inr s \<and> s \<noteq> ''true'' \<and> s \<noteq> ''false'' \<longrightarrow>
        getSingleBool h p = Inl TypeMismatch) \<and>
   (\<forall>e. getSingleString h p = Inl e \<longrightarrow> getSingleBool h p = Inl e) \<and>
   (\<forall>b. getSingleBool h p = Inr b \<longleftrightarrow>
        getSingleString h p = Inr (if b then ''true'' else ''false''))"
  by (auto simp: getSingleBool_def split: sum.splits if_splits)

theorem getSingleBool_cases_witness:
  \<open>getSingleString example_store (StringAnnotationParam ''b'' [''"true"'']) = Inr ''true'' \<and>
   getSingleBool example_store (StringAnnotationParam ''b'' [''"true"'']) = Inr True \<and>
   getSingleString example_store (StringAnnotationParam ''b'' [''"false"'']) = Inr ''false'' \<and>
   getSingleBool example_store (StringAnnotationParam ''b'' [''"false"'']) = Inr False \<and>
   getSingleString example_store (StringAnnotationParam ''b'' [''"True"'']) = Inr ''True'' \<and>
   getSingleBool example_store (StringAnnotationParam ''b'' [''"True"'']) = Inl TypeMismatch \<and>
   getSingleString example_store (StringAnnotationParam ''b'' [''true'']) = Inl TypeMismatch \<and>
   getSingleBool example_store (StringAnnotationParam ''b'' [''true'']) = Inl TypeMismatch\<close>
  using getSingleBool_cases [of example_store \<open>StringAnnotationParam ''b'' [''"true"'']\<close>]
    getSingleBool_cases [of example_store \<open>StringAnnotationParam ''b'' [''"false"'']\<close>]
    getSingleBool_cases [of example_store \<open>StringAnnotationParam ''b'' [''"True"'']\<close>]
    getSingleBool_cases [of example_store "StringAnnotationParam ''b'' [''true'']"]
  by (simp add: getSingleString_def substr_def)

subsection \<open>Looking a parameter up\<close>

lemma getParam_loop_find: "getParam_loop ps n = find (\<lambda>p. getName p = n) ps"
  by (induction ps) auto

text \<open>
  Claim C7. \<open>getParam\<close> scans the parameters in declaration order and returns the first
  one whose name is the given name; it returns "not found" exactly when no parameter has
  that name, and of two parameters with the same name only the first is ever returned.
\<close>

theorem getParam_first_match:
  "(getParam a n = None \<longleftrightarrow> (\<forall>p \<in> set (mParams a). getName p \<noteq> n)) \<and>
   (\<forall>p. getParam a n = Some p \<longleftrightarrow>
      (\<exists>i < length (mParams a). mParams a ! i = p \<and> getName p = n \<and>
          (\<forall>j < i. getName (mParams a ! j) \<noteq> n)))"
  unfolding getParam_def getParam_loop_find find_None_iff find_Some_iff by auto

theorem getParam_first_match_witness:
  "getParam (Annotation_new ''a'' [StringAnnotationParam ''y'' [''0''],
       StringAnnotationParam ''x'' [''1''], StringAnnotationParam ''x'' [''2'']]) ''x''
     = Some (StringAnnotationParam ''x'' [''1'']) \<and>
   getParam (Annotation_new ''a'' [StringAnnotationParam ''y'' [''0''],
       StringAnnotationParam ''x'' [''1''], StringAnnotationParam ''x'' [''2'']]) ''z'' = None \<and>
   getParam token_annotation ''repr'' = Some (StringAnnotationParam ''repr'' [CHR 0x22 # ''abc'' @ [CHR 0x22]])"
  using getParam_first_match [of "Annotation_new ''a'' [StringAnnotationParam ''y'' [''0''],
       StringAnnotationParam ''x'' [''1''], StringAnnotationParam ''x'' [''2'']]" "''x''"]
    getParam_first_match [of "Annotation_new ''a'' [StringAnnotationParam ''y'' [''0''],
       StringAnnotationParam ''x'' [''1''], StringAnnotationParam ''x'' [''2'']]" "''z''"]
  by (simp add: getParam_def Annotation_new_def token_annotation_def)

subsection \<open>Rendering an annotation\<close>

lemma JoinStrings_Cons: "JoinStrings (c # cs) sep = c @ concat (map (\<lambda>x. sep @ x) cs)"
  by (induction cs arbitrary: c) simp_all

lemma dump_param_render:
  "dump_param h i p out = out @ (if i > 0 then '', '' else []) @ spec_render_param h p"
proof (cases "getValues h p")
  case Nil
  then show ?thesis
    by (simp add: dump_param_def spec_render_param_def emit_def)
next
  case (Cons v vs)
  then show ?thesis
    by (cases vs) (simp_all add: dump_param_def spec_render_param_def emit_def)
qed

text \<open>The invariant of the loop once the first parameter is written.\<close>

lemma dump_loop_from:
  "0 < i \<Longrightarrow> dump_loop h ps i out =
     out @ concat (map (\<lambda>p. '', '' @ spec_render_param h p) (drop i ps))"
proof (induction h ps i out rule: dump_loop.induct)
  case (1 h ps i out)
  show ?case
  proof (cases "i < length ps")
    case True
    have d: "drop i ps = ps ! i # drop (Suc i) ps"
      using True by (simp add: Cons_nth_drop_Suc)
    have "dump_loop h ps i out = dump_loop h ps (i + 1) (dump_param h i (ps ! i) out)"
      using True by (subst dump_loop.simps) simp
    also have "\<dots> = dump_param h i (ps ! i) out @
        concat (map (\<lambda>p. '', '' @ spec_render_param h p) (drop (i + 1) ps))"
      using True "1.IH" by simp
    finally show ?thesis
      using "1.prems" d by (simp add: dump_param_render)
  next
    case False
    then show ?thesis by (subst dump_loop.simps) simp
  qed
qed

lemma dump_loop_all:
  "dump_loop h ps 0 out = out @ JoinStrings (map (spec_render_param h) ps) '', ''"
proof (cases ps)
  case Nil
  then show ?thesis by (subst dump_loop.simps) simp
next
  case (Cons p rest)
  have "dump_loop h ps 0 out = dump_loop h ps 1 (dump_param h 0 (ps ! 0) out)"
    using Cons by (subst dump_loop.simps) simp
  also have "\<dots> = dump_param h 0 (ps ! 0) out @
      concat (map (\<lambda>p. '', '' @ spec_render_param h p) (drop 1 ps))"
    by (rule dump_loop_from) simp
  finally show ?thesis
    using Cons by (simp add: dump_param_render JoinStrings_Cons comp_def)
qed

text \<open>
  Claim C1. \<open>dump\<close> writes exactly \<open>@\<close> and the name of the annotation when there is no
  parameter. Otherwise it writes \<open>@Name(\<close>, then the parameters in declaration order with
  \<open>, \<close> between them, then \<open>)\<close>; a parameter is written as \<open>key=value\<close> when its
  \<open>getValues\<close> has exactly one element and as \<open>key={v1, v2, ...}\<close> when it has more than
  one, whatever the class of the parameter.
\<close>

theorem dump_format:
  "dump h a out = out @ spec_dump h a \<and>
   (mParams a = [] \<longrightarrow> dump h a out = out @ ''@'' @ name a) \<and>
   (mParams a \<noteq> [] \<longrightarrow>
      dump h a out = out @ ''@'' @ name a @ ''('' @
        JoinStrings (map (spec_render_param h) (mParams a)) '', '' @ '')'') \<and>
   (\<forall>v. getValues h p = [v] \<longrightarrow>
      spec_render_param h p = getName p @ ''='' @ v \<and>
      dump h (Annotation_new n [p]) out = out @ ''@'' @ n @ ''('' @ getName p @ ''='' @ v @ '')'') \<and>
   (length (getValues h p) > 1 \<longrightarrow>
      spec_render_param h p = getName p @ ''={'' @ JoinStrings (getValues h p) '', '' @ ''}'' \<and>
      dump h (Annotation_new n [p]) out =
        out @ ''@'' @ n @ ''('' @ getName p @ ''={'' @ JoinStrings (getValues h p) '', '' @ ''})'')"
proof -
  have 1: "dump h a out = out @ spec_dump h a"
    by (simp add: dump_def spec_dump_def dump_loop_all emit_def name_def)
  have 2: "mParams a = [] \<longrightarrow> dump h a out = out @ ''@'' @ name a"
    by (simp add: 1 spec_dump_def)
  have 3: "mParams a \<noteq> [] \<longrightarrow>
      dump h a out = out @ ''@'' @ name a @ ''('' @
        JoinStrings (map (spec_render_param h) (mParams a)) '', '' @ '')''"
    by (simp add: 1 spec_dump_def)
  have one: "dump h (Annotation_new n [p]) out =
      out @ ''@'' @ n @ ''('' @ spec_render_param h p @ '')''"
    by (simp add: dump_def dump_loop_all emit_def Annotation_new_def)
  have 4: "\<forall>v. getValues h p = [v] \<longrightarrow>
      spec_render_param h p = getName p @ ''='' @ v \<and>
      dump h (Annotation_new n [p]) out = out @ ''@'' @ n @ ''('' @ getName p @ ''='' @ v @ '')''"
    by (simp add: one spec_render_param_def)
  have 5: "length (getValues h p) > 1 \<longrightarrow>
      spec_render_param h p = getName p @ ''={'' @ JoinStrings (getValues h p) '', '' @ ''}'' \<and>
      dump h (Annotation_new n [p]) out =
        out @ ''@'' @ n @ ''('' @ getName p @ ''={'' @ JoinStrings (getValues h p) '', '' @ ''})''"
  proof
    assume "length (getValues h p) > 1"
    then obtain v w vs where "getValues h p = v # w # vs"
      by (cases "getValues h p"; cases "tl (getValues h p)") auto
    then show "spec_render_param h p =
          getName p @ ''={'' @ JoinStrings (getValues h p) '', '' @ ''}'' \<and>
        dump h (Annotation_new n [p]) out =
          out @ ''@'' @ n @ ''('' @ getName p @ ''={'' @ JoinStrings (getValues h p) '', '' @ ''})''"
      by (simp add: one spec_render_param_def)
  qed
  from 1 2 3 4 5 show ?thesis by blast
qed

theorem dump_format_witness:
  \<open>dump example_store token_annotation [] = ''@token(repr="abc")'' \<and>
   dump example_store (Annotation_new ''a'' []) [] = ''@a'' \<and>
   dump example_store (Annotation_new ''a'' [StringAnnotationParam ''k'' [''x'', ''y''],
       ConstantExpressionAnnotationParam ''c'' [0], ConstantExpressionAnnotationParam ''d'' [0, 1]]) []
     = ''@a(k={x, y}, c=1 /* ONE */, d={1 /* ONE */, 2 /* 1 + 1 */})''\<close>
  using dump_format [of example_store token_annotation "[]"]
    dump_format [of example_store "Annotation_new ''a'' []" "[]"]
    dump_format [of example_store "Annotation_new ''a'' [StringAnnotationParam ''k'' [''x'', ''y''],
       ConstantExpressionAnnotationParam ''c'' [0], ConstantExpressionAnnotationParam ''d'' [0, 1]]" "[]"]
  by (simp add: spec_dump_def spec_render_param_def token_annotation_def Annotation_new_def
      name_def getValues_loop_map convertToString_def example_store_def)

text \<open>
  Claim C10. A parameter whose \<open>getValues\<close> is empty is still written by \<open>dump\<close>: its
  name, then \<open>=\<close>, then nothing, without braces, as in \<open>@Name(key=)\<close>.
\<close>

theorem dump_empty_values:
  assumes "getValues h p = []"
  shows "dump h (Annotation_new n (pre @ p # post)) out =
           out @ ''@'' @ n @ ''('' @
             JoinStrings (map (spec_render_param h) pre @ [getName p @ ''=''] @
                          map (spec_render_param h) post) '', '' @ '')'' \<and>
         dump h (Annotation_new n [p]) out = out @ ''@'' @ n @ ''('' @ getName p @ ''=)''"
  using assms
  by (simp add: dump_def dump_loop_all emit_def Annotation_new_def spec_render_param_def)

theorem dump_empty_values_witness:
  "getValues example_store (StringAnnotationParam ''key'' []) = [] \<and>
   dump example_store (Annotation_new ''Name'' [StringAnnotationParam ''key'' []]) []
     = ''@Name(key=)'' \<and>
   dump example_store (Annotation_new ''Name'' [StringAnnotationParam ''a'' [''1''],
       ConstantExpressionAnnotationParam ''key'' [], StringAnnotationParam ''b'' [''2'']]) []
     = ''@Name(a=1, key=, b=2)''"
proof -
  have s: "getValues example_store (StringAnnotationParam ''key'' []) = []"
    by simp
  have c: "getValues example_store (ConstantExpressionAnnotationParam ''key'' []) = []"
    by simp
  show ?thesis
    using s dump_empty_values [OF s, of "''Name''" "[]" "[]" "[]"]
      dump_empty_values [OF c, of "''Name''" "[StringAnnotationParam ''a'' [''1'']]"
        "[StringAnnotationParam ''b'' [''2'']]" "[]"]
    by (simp add: spec_render_param_def)
qed

subsection \<open>Evaluating an annotation\<close>

lemma run_params_Nil: "run_params pev [] s = s"
  by (simp add: run_params_def)

lemma run_params_Cons: "run_params pev (p # ps) s = run_params pev ps (snd (pev p s))"
  by (simp add: run_params_def)

lemma loop_Cons:
  "Annotation_evaluate_loop pev (p # ps) s =
     (if fst (pev p s) \<noteq> OK then pev p s
      else Annotation_evaluate_loop pev ps (snd (pev p s)))"
  by (cases "pev p s") simp

lemma loop_all_OK:
  "(\<forall>k<length ps. fst (pev (ps ! k) (run_params pev (take k ps) s)) = OK) \<Longrightarrow>
   Annotation_evaluate_loop pev ps s = (OK, run_params pev ps s)"
proof (induction ps arbitrary: s)
  case Nil
  show ?case by (simp add: run_params_Nil)
next
  case (Cons p ps)
  from Cons.prems have 0: "fst (pev p s) = OK"
    by (auto simp: run_params_Nil)
  have "\<forall>k<length ps. fst (pev (ps ! k) (run_params pev (take k ps) (snd (pev p s)))) = OK"
  proof (intro allI impI)
    fix k assume "k < length ps"
    then have "Suc k < length (p # ps)" by simp
    with Cons.prems
    have "fst (pev ((p # ps) ! Suc k) (run_params pev (take (Suc k) (p # ps)) s)) = OK"
      by blast
    then show "fst (pev (ps ! k) (run_params pev (take k ps) (snd (pev p s)))) = OK"
      by (simp add: run_params_Cons)
  qed
  then have "Annotation_evaluate_loop pev ps (snd (pev p s)) =
      (OK, run_params pev ps (snd (pev p s)))"
    by (rule Cons.IH)
  with 0 show ?case
    by (simp add: run_params_Cons loop_Cons del: Annotation_evaluate_loop.simps)
qed

lemma loop_first_failure:
  "i < length ps \<Longrightarrow>
   (\<forall>k<i. fst (pev (ps ! k) (run_params pev (take k ps) s)) = OK) \<Longrightarrow>
   fst (pev (ps ! i) (run_params pev (take i ps) s)) \<noteq> OK \<Longrightarrow>
   Annotation_evaluate_loop pev ps s = pev (ps ! i) (run_params pev (take i ps) s)"
proof (induction ps arbitrary: s i)
  case Nil
  then show ?case by simp
next
  case (Cons p ps)
  show ?case
  proof (cases i)
    case 0
    with Cons.prems show ?thesis
      by (simp add: run_params_Nil loop_Cons del: Annotation_evaluate_loop.simps)
  next
    case (Suc j)
    with Cons.prems have 0: "fst (pev p s) = OK"
      by (auto simp: run_params_Nil)
    have j: "j < length ps"
      using Cons.prems Suc by simp
    have ok: "\<forall>k<j. fst (pev (ps ! k) (run_params pev (take k ps) (snd (pev p s)))) = OK"
    proof (intro allI impI)
      fix k assume "k < j"
      then have "Suc k < i" using Suc by simp
      with Cons.prems
      have "fst (pev ((p # ps) ! Suc k) (run_params pev (take (Suc k) (p # ps)) s)) = OK"
        by blast
      then show "fst (pev (ps ! k) (run_params pev (take k ps) (snd (pev p s)))) = OK"
        by (simp add: run_params_Cons)
    qed
    have bad: "fst (pev (ps ! j) (run_params pev (take j ps) (snd (pev p s)))) \<noteq> OK"
      using Cons.prems Suc by (simp add: run_params_Cons)
    have "Annotation_evaluate_loop pev ps (snd (pev p s)) =
            pev (ps ! j) (run_params pev (take j ps) (snd (pev p s)))"
      using j ok bad by (rule Cons.IH)
    with 0 Suc show ?thesis
      by (simp add: run_params_Cons loop_Cons del: Annotation_evaluate_loop.simps)
  qed
qed

lemma loop_OK_iff:
  "fst (Annotation_evaluate_loop pev ps s) = OK \<longleftrightarrow>
   (\<forall>k<length ps. fst (pev (ps ! k) (run_params pev (take k ps) s)) = OK)"
proof (cases "\<forall>k<length ps. fst (pev (ps ! k) (run_params pev (take k ps) s)) = OK")
  case True
  then show ?thesis
    using loop_all_OK [of ps pev s] by simp
next
  case False
  define B where
    "B k \<longleftrightarrow> k < length ps \<and> fst (pev (ps ! k) (run_params pev (take k ps) s)) \<noteq> OK" for k
  from False have ex: "\<exists>k. B k"
    by (auto simp: B_def)
  define i where "i = (LEAST k. B k)"
  have Bi: "B i"
    unfolding i_def using ex by (rule LeastI_ex)
  have least: "\<And>k. k < i \<Longrightarrow> \<not> B k"
    unfolding i_def by (rule not_less_Least)
  have "\<forall>k<i. fst (pev (ps ! k) (run_params pev (take k ps) s)) = OK"
    using least Bi by (auto simp: B_def)
  with Bi have "Annotation_evaluate_loop pev ps s = pev (ps ! i) (run_params pev (take i ps) s)"
    by (intro loop_first_failure) (auto simp: B_def)
  with Bi False show ?thesis
    by (simp add: B_def)
qed

text \<open>
  Claim C2. \<open>Annotation_evaluate\<close> processes the parameters in declaration order. When
  the parameter at index \<open>i\<close> is the first whose \<open>evaluate\<close> fails, the result is the
  status and the state of that very call: \<open>evaluate\<close> is called on no later parameter.
  The result is \<open>OK\<close> if and only if the \<open>evaluate\<close> of every parameter succeeds, and
  then every parameter has been evaluated.
\<close>

theorem Annotation_evaluate_fail_fast:
  "(\<forall>i<length (mParams a).
      (\<forall>k<i. fst (pev (mParams a ! k) (run_params pev (take k (mParams a)) s)) = OK) \<and>
      fst (pev (mParams a ! i) (run_params pev (take i (mParams a)) s)) \<noteq> OK \<longrightarrow>
      Annotation_evaluate pev a s =
        pev (mParams a ! i) (run_params pev (take i (mParams a)) s)) \<and>
   ((\<forall>k<length (mParams a).
       fst (pev (mParams a ! k) (run_params pev (take k (mParams a)) s)) = OK) \<longrightarrow>
      Annotation_evaluate pev a s = (OK, run_params pev (mParams a) s)) \<and>
   (fst (Annotation_evaluate pev a s) = OK \<longleftrightarrow>
      (\<forall>k<length (mParams a).
         fst (pev (mParams a ! k) (run_params pev (take k (mParams a)) s)) = OK))"
  unfolding Annotation_evaluate_def
  using loop_first_failure [of _ "mParams a" pev s] loop_all_OK [of "mParams a" pev s]
    loop_OK_iff [of pev "mParams a" s]
  by blast

theorem Annotation_evaluate_fail_fast_witness:
  "Annotation_evaluate logging_evaluate
     (Annotation_new ''a'' [StringAnnotationParam ''good'' [], StringAnnotationParam ''bad'' [],
        StringAnnotationParam ''later'' []]) [] = (- 1, [''good'', ''bad'']) \<and>
   Annotation_evaluate logging_evaluate
     (Annotation_new ''a'' [StringAnnotationParam ''good'' [],
        StringAnnotationParam ''later'' []]) [] = (OK, [''good'', ''later''])"
  using Annotation_evaluate_fail_fast
          [of "Annotation_new ''a'' [StringAnnotationParam ''good'' [],
                 StringAnnotationParam ''bad'' [], StringAnnotationParam ''later'' []]"
              logging_evaluate "[]"]
    Annotation_evaluate_fail_fast
          [of "Annotation_new ''a'' [StringAnnotationParam ''good'' [],
                 StringAnnotationParam ''later'' []]"
              logging_evaluate "[]"]
  by (simp add: Annotation_evaluate_def Annotation_new_def logging_evaluate_def OK_def)

subsection \<open>Evaluating a constant-expression parameter\<close>

lemma run_values_Nil: "run_values ev [] s = s"
  by (simp add: run_values_def)

lemma run_values_Cons:
  "run_values ev (v # vs) s = run_values ev vs (case ev v s of Inl e \<Rightarrow> s | Inr s' \<Rightarrow> s')"
  by (simp add: run_values_def)

lemma evaluate_values_all_fold:
  "(\<forall>k<length vs. \<not> isl (ev (vs ! k) (run_values ev (take k vs) s))) \<Longrightarrow>
   evaluate_values ev vs s = Inr (run_values ev vs s)"
proof (induction vs arbitrary: s)
  case Nil
  show ?case by (simp add: run_values_Nil)
next
  case (Cons v vs)
  from Cons.prems have "\<not> isl (ev v s)"
    by (auto simp: run_values_Nil)
  then obtain s' where 0: "ev v s = Inr s'"
    by (cases "ev v s") auto
  have "\<forall>k<length vs. \<not> isl (ev (vs ! k) (run_values ev (take k vs) s'))"
  proof (intro allI impI)
    fix k assume "k < length vs"
    then have "Suc k < length (v # vs)" by simp
    with Cons.prems
    have "\<not> isl (ev ((v # vs) ! Suc k) (run_values ev (take (Suc k) (v # vs)) s))"
      by blast
    then show "\<not> isl (ev (vs ! k) (run_values ev (take k vs) s'))"
      by (simp add: run_values_Cons 0)
  qed
  then have "evaluate_values ev vs s' = Inr (run_values ev vs s')"
    by (rule Cons.IH)
  with 0 show ?case
    by (simp add: run_values_Cons 0)
qed

lemma evaluate_values_first_failure:
  "i < length vs \<Longrightarrow>
   (\<forall>k<i. \<not> isl (ev (vs ! k) (run_values ev (take k vs) s))) \<Longrightarrow>
   ev (vs ! i) (run_values ev (take i vs) s) = Inl e \<Longrightarrow>
   evaluate_values ev vs s = Inl e"
proof (induction vs arbitrary: s i)
  case Nil
  then show ?case by simp
next
  case (Cons v vs)
  show ?case
  proof (cases i)
    case 0
    with Cons.prems show ?thesis
      by (simp add: run_values_Nil)
  next
    case (Suc j)
    with Cons.prems have "\<not> isl (ev v s)"
      by (auto simp: run_values_Nil)
    then obtain s' where 0: "ev v s = Inr s'"
      by (cases "ev v s") auto
    have j: "j < length vs"
      using Cons.prems Suc by simp
    have ok: "\<forall>k<j. \<not> isl (ev (vs ! k) (run_values ev (take k vs) s'))"
    proof (intro allI impI)
      fix k assume "k < j"
      then have "Suc k < i" using Suc by simp
      with Cons.prems
      have "\<not> isl (ev ((v # vs) ! Suc k) (run_values ev (take (Suc k) (v # vs)) s))"
        by blast
      then show "\<not> isl (ev (vs ! k) (run_values ev (take k vs) s'))"
        by (simp add: run_values_Cons 0)
    qed
    have bad: "ev (vs ! j) (run_values ev (take j vs) s') = Inl e"
      using Cons.prems Suc by (simp add: run_values_Cons 0)
    have "evaluate_values ev vs s' = Inl e"
      using j ok bad by (rule Cons.IH)
    with 0 show ?thesis by simp
  qed
qed

lemma evaluate_values_isl_iff:
  "isl (evaluate_values ev vs s) \<longleftrightarrow>
   (\<exists>k<length vs. isl (ev (vs ! k) (run_values ev (take k vs) s)))"
proof (cases "\<forall>k<length vs. \<not> isl (ev (vs ! k) (run_values ev (take k vs) s))")
  case True
  then show ?thesis
    using evaluate_values_all_fold [of vs ev s] by auto
next
  case False
  define B where
    "B k \<longleftrightarrow> k < length vs \<and> isl (ev (vs ! k) (run_values ev (take k vs) s))" for k
  from False have ex: "\<exists>k. B k"
    by (auto simp: B_def)
  define i where "i = (LEAST k. B k)"
  have Bi: "B i"
    unfolding i_def using ex by (rule LeastI_ex)
  have least: "\<And>k. k < i \<Longrightarrow> \<not> B k"
    unfolding i_def by (rule not_less_Least)
  from Bi obtain e where e: "ev (vs ! i) (run_values ev (take i vs) s) = Inl e"
    by (cases "ev (vs ! i) (run_values ev (take i vs) s)") (auto simp: B_def)
  have "\<forall>k<i. \<not> isl (ev (vs ! k) (run_values ev (take k vs) s))"
    using least Bi by (auto simp: B_def)
  with Bi e have "evaluate_values ev vs s = Inl e"
    by (intro evaluate_values_first_failure [of i]) (auto simp: B_def)
  with ex show ?thesis
    by (auto simp: B_def)
qed

lemma evaluate_values_log:
  "evaluate_values (\<lambda>v log. Inr (log @ [v])) vs log = Inr (log @ vs)"
  by (induction vs arbitrary: log) auto

text \<open>
  When the \<open>evaluate\<close> of a parameter of one of the two classes of the file returns, it
  returns \<open>OK\<close>.
\<close>

lemma param_evaluate_returns_OK: "param_evaluate ev p s = Inr (st, s') \<Longrightarrow> st = OK"
  by (cases p)
    (auto simp: ConstantExpressionAnnotationParam_evaluate_def AnnotationParam_evaluate_def
      split: sum.splits)

text \<open>
  Claim C3. The \<open>evaluate\<close> of a constant-expression parameter calls \<open>evaluate\<close> on the
  underlying nodes in order. When some node fails to fold, the result is the failure of
  the first such node and not success. When no node fails, \<open>evaluate\<close> has been called
  on every node and the result is \<open>OK\<close>: the state is the one that all the calls leave,
  and when each call adds the address of its node to a log, the log grows by exactly the
  nodes of the parameter, in order.
\<close>

theorem ConstantExpression_evaluate_first_failure:
  "(\<forall>i<length vs. \<forall>e.
      (\<forall>k<i. \<not> isl (ev (vs ! k) (run_values ev (take k vs) s))) \<and>
      ev (vs ! i) (run_values ev (take i vs) s) = Inl e \<longrightarrow>
      param_evaluate ev (ConstantExpressionAnnotationParam n vs) s = Inl e) \<and>
   ((\<forall>k<length vs. \<not> isl (ev (vs ! k) (run_values ev (take k vs) s))) \<longrightarrow>
      param_evaluate ev (ConstantExpressionAnnotationParam n vs) s =
        Inr (OK, run_values ev vs s)) \<and>
   (isl (param_evaluate ev (ConstantExpressionAnnotationParam n vs) s) \<longleftrightarrow>
      (\<exists>k<length vs. isl (ev (vs ! k) (run_values ev (take k vs) s)))) \<and>
   param_evaluate (\<lambda>v log. Inr (log @ [v])) (ConstantExpressionAnnotationParam n vs) log =
     Inr (OK, log @ vs)"
proof -
  have 1: "\<forall>i<length vs. \<forall>e.
      (\<forall>k<i. \<not> isl (ev (vs ! k) (run_values ev (take k vs) s))) \<and>
      ev (vs ! i) (run_values ev (take i vs) s) = Inl e \<longrightarrow>
      param_evaluate ev (ConstantExpressionAnnotationParam n vs) s = Inl e"
    using evaluate_values_first_failure [of _ vs ev s]
    by (simp add: ConstantExpressionAnnotationParam_evaluate_def)
  have 2: "(\<forall>k<length vs. \<not> isl (ev (vs ! k) (run_values ev (take k vs) s))) \<longrightarrow>
      param_evaluate ev (ConstantExpressionAnnotationParam n vs) s =
        Inr (OK, run_values ev vs s)"
    using evaluate_values_all_fold [of vs ev s]
    by (simp add: ConstantExpressionAnnotationParam_evaluate_def AnnotationParam_evaluate_def)
  have 3: "isl (param_evaluate ev (ConstantExpressionAnnotationParam n vs) s) \<longleftrightarrow>
      (\<exists>k<length vs. isl (ev (vs ! k) (run_values ev (take k vs) s)))"
    using evaluate_values_isl_iff [of ev vs s]
    by (cases "evaluate_values ev vs s")
      (simp_all add: ConstantExpressionAnnotationParam_evaluate_def)
  have 4: "param_evaluate (\<lambda>v log. Inr (log @ [v])) (ConstantExpressionAnnotationParam n vs) log =
     Inr (OK, log @ vs)"
    by (simp add: ConstantExpressionAnnotationParam_evaluate_def AnnotationParam_evaluate_def
        evaluate_values_log)
  from 1 2 3 show ?thesis
    unfolding 4 by blast
qed

theorem ConstantExpression_evaluate_first_failure_witness:
  "param_evaluate logging_node (ConstantExpressionAnnotationParam ''p'' [3, 1, 0, 4]) [] =
     Inl (EvaluationFailure 1) \<and>
   param_evaluate logging_node (ConstantExpressionAnnotationParam ''p'' [3, 2, 4]) [] =
     Inr (OK, [3, 2, 4])"
  using ConstantExpression_evaluate_first_failure
          [of "[3, 1, 0, 4]" logging_node "[]" "''p''"]
    ConstantExpression_evaluate_first_failure [of "[3, 2, 4]" logging_node "[]" "''p''"]
  by (simp add: ConstantExpressionAnnotationParam_evaluate_def AnnotationParam_evaluate_def
      logging_node_def)

subsection \<open>The name of an annotation\<close>

text \<open>
  Claim C9, as stated, fails: the constructor accepts the empty name.
\<close>

theorem Annotation_name_counterexample:
  "\<not> 1 \<le> length (name (Annotation_new [] []))"
  by (simp add: name_def Annotation_new_def)

text \<open>
  Claim C9, amended. \<open>name\<close> returns exactly the string the constructor was given, so
  the name has length at least 1 exactly when that string is not empty.
\<close>

theorem Annotation_name_is_argument:
  "name (Annotation_new n ps) = n \<and>
   (1 \<le> length (name (Annotation_new n ps)) \<longleftrightarrow> n \<noteq> [])"
  by (cases n) (simp_all add: name_def Annotation_new_def)

end
